theory Spec2Isabelle
  imports Main
begin

section \<open>Text primitives of the host language\<close>

text \<open>
  Text is a list of code units. The model covers code units below 256, so the
  whitespace class \<open>\s\<close> of the regular expressions (and of \<open>trim\<close>) is
  TAB, LF, VT, FF, CR, SPACE and NBSP; the wider code points of that class lie
  outside the model. A \<open>Buffer\<close> is a list of bytes.
\<close>

type_synonym buffer = "char list"

type_synonym js_object = "(string \<times> string) list"

definition is_space :: "char \<Rightarrow> bool" where
  "is_space c = (c = CHR 0x09 \<or> c = CHR 0x0A \<or> c = CHR 0x0B \<or> c = CHR 0x0C
     \<or> c = CHR 0x0D \<or> c = CHR 0x20 \<or> c = CHR 0xA0)"

definition is_line_terminator :: "char \<Rightarrow> bool" where
  "is_line_terminator c = (c = CHR 0x0A \<or> c = CHR 0x0D)"

text \<open>\<open>String.prototype.trim\<close>.\<close>

definition js_trim :: "string \<Rightarrow> string" where
  "js_trim s = rev (dropWhile is_space (rev (dropWhile is_space s)))"

text \<open>\<open>s.split(sep)\<close> for a one-character separator: never the empty array.\<close>

fun js_split :: "char \<Rightarrow> string \<Rightarrow> string list" where
  "js_split sep [] = [[]]"
| "js_split sep (x # xs) =
     (if x = sep then [] # js_split sep xs
      else (case js_split sep xs of
              [] \<Rightarrow> [[x]]
            | p # ps \<Rightarrow> (x # p) # ps))"

text \<open>\<open>parts[parts.length - k]\<close>: \<open>None\<close> is \<open>undefined\<close> (index out of range).\<close>

definition nth_from_end :: "nat \<Rightarrow> 'a list \<Rightarrow> 'a option" where
  "nth_from_end k parts =
     (if 0 < k \<and> k \<le> length parts then Some (parts ! (length parts - k)) else None)"

text \<open>\<open>Array.prototype.join\<close>.\<close>

fun js_join :: "string \<Rightarrow> string list \<Rightarrow> string" where
  "js_join sep [] = []"
| "js_join sep [x] = x"
| "js_join sep (x # y # ys) = x @ sep @ js_join sep (y # ys)"

fun starts_with :: "string \<Rightarrow> string \<Rightarrow> bool" where
  "starts_with [] s = True"
| "starts_with (p # ps) [] = False"
| "starts_with (p # ps) (x # xs) = (p = x \<and> starts_with ps xs)"

text \<open>The text before and after the first occurrence of \<open>pat\<close> in \<open>s\<close>.\<close>

fun split_at_first :: "string \<Rightarrow> string \<Rightarrow> (string \<times> string) option" where
  "split_at_first pat [] = (if pat = [] then Some ([], []) else None)"
| "split_at_first pat (x # xs) =
     (if starts_with pat (x # xs) then Some ([], drop (length pat) (x # xs))
      else (case split_at_first pat xs of
              None \<Rightarrow> None
            | Some (front, back) \<Rightarrow> Some (x # front, back)))"

definition js_includes :: "string \<Rightarrow> string \<Rightarrow> bool" where
  "js_includes pat s = (split_at_first pat s \<noteq> None)"

text \<open>
  The replacement patterns of \<open>String.prototype.replace\<close> when the pattern is a
  string (no capture groups): \<open>$$\<close>, \<open>$&\<close>, \<open>$`\<close> and \<open>$'\<close> are expanded, every
  other character is copied.
\<close>

fun get_substitution :: "string \<Rightarrow> string \<Rightarrow> string \<Rightarrow> string \<Rightarrow> string" where
  "get_substitution matched front back [] = []"
| "get_substitution matched front back [c] = [c]"
| "get_substitution matched front back (c # d # r) =
     (if c = CHR ''$'' \<and> d = CHR ''$'' then CHR ''$'' # get_substitution matched front back r
      else if c = CHR ''$'' \<and> d = CHR ''&'' then matched @ get_substitution matched front back r
      else if c = CHR ''$'' \<and> d = CHR 0x60 then front @ get_substitution matched front back r
      else if c = CHR ''$'' \<and> d = CHR 0x27 then back @ get_substitution matched front back r
      else c # get_substitution matched front back (d # r))"

text \<open>\<open>s.replace(pat, repl)\<close> with a string pattern: the first occurrence only.\<close>

definition js_replace :: "string \<Rightarrow> string \<Rightarrow> string \<Rightarrow> string" where
  "js_replace s pat repl =
     (case split_at_first pat s of
        None \<Rightarrow> s
      | Some (front, back) \<Rightarrow> front @ get_substitution pat front back repl @ back)"

section \<open>The regular expressions of the packager\<close>

text \<open>
  The three expressions of the source are sequences of single characters, of
  greedy starred character classes and of greedy optional characters. The matcher
  backtracks in the order of the host language: the longest repetition first.
  \<open>Mark\<close> records the rest of the input at a capture-group boundary.
\<close>

datatype cclass = Ch char | Space | NotSpaceQuote | NotLineTerm

datatype item = One cclass | Star cclass | Opt cclass | Mark

fun in_class :: "cclass \<Rightarrow> char \<Rightarrow> bool" where
  "in_class (Ch a) c = (c = a)"
| "in_class Space c = is_space c"
| "in_class NotSpaceQuote c = (\<not> is_space c \<and> c \<noteq> CHR 0x22 \<and> c \<noteq> CHR 0x27)"
| "in_class NotLineTerm c = (\<not> is_line_terminator c)"

text \<open>
  \<open>rx p s\<close> matches \<open>p\<close> at the start of \<open>s\<close>: the rests of the input at each
  mark, then the rest after the match.
\<close>

fun rx :: "item list \<Rightarrow> string \<Rightarrow> string list option" where
  "rx [] s = Some [s]"
| "rx (Mark # r) s = (case rx r s of None \<Rightarrow> None | Some ms \<Rightarrow> Some (s # ms))"
| "rx (One c # r) [] = None"
| "rx (One c # r) (x # xs) = (if in_class c x then rx r xs else None)"
| "rx (Opt c # r) [] = rx r []"
| "rx (Opt c # r) (x # xs) =
     (if in_class c x
      then (case rx r xs of Some ms \<Rightarrow> Some ms | None \<Rightarrow> rx r (x # xs))
      else rx r (x # xs))"
| "rx (Star c # r) [] = rx r []"
| "rx (Star c # r) (x # xs) =
     (if in_class c x
      then (case rx (Star c # r) xs of Some ms \<Rightarrow> Some ms | None \<Rightarrow> rx r (x # xs))
      else rx r (x # xs))"

text \<open>The first match from the left: the text before it and the marks.\<close>

fun rx_search :: "item list \<Rightarrow> string \<Rightarrow> (string \<times> string list) option" where
  "rx_search p [] = (case rx p [] of None \<Rightarrow> None | Some ms \<Rightarrow> Some ([], ms))"
| "rx_search p (x # xs) =
     (case rx p (x # xs) of
        Some ms \<Rightarrow> Some ([], ms)
      | None \<Rightarrow> (case rx_search p xs of
                  None \<Rightarrow> None
                | Some (pre, ms) \<Rightarrow> Some (x # pre, ms)))"

text \<open>
  \<open>s.match(re)\<close> with the global flag: the texts of the successive matches. The
  counter is the number of characters still inside the previous match. The
  expression scanned this way matches at least five characters, so no empty match
  arises. The empty list stands for \<open>null\<close>.
\<close>

fun js_match_all :: "item list \<Rightarrow> nat \<Rightarrow> string \<Rightarrow> string list" where
  "js_match_all p k [] = []"
| "js_match_all p (Suc k) (x # xs) = js_match_all p k xs"
| "js_match_all p 0 (x # xs) =
     (case rx p (x # xs) of
        None \<Rightarrow> js_match_all p 0 xs
      | Some ms \<Rightarrow>
          (let n = length (x # xs) - length (last ms)
           in take n (x # xs) # js_match_all p (n - 1) xs))"

text \<open>\<open>s.replace(re, '')\<close> without the global flag: the first match is removed.\<close>

definition rx_remove_first :: "item list \<Rightarrow> string \<Rightarrow> string" where
  "rx_remove_first p s =
     (case rx_search p s of
        None \<Rightarrow> s
      | Some (pre, ms) \<Rightarrow> pre @ last ms)"

text \<open>The text of the first capture group (between the first two marks).\<close>

definition capture1 :: "string list \<Rightarrow> string" where
  "capture1 ms = (case ms of a # b # _ \<Rightarrow> take (length a - length b) a | _ \<Rightarrow> [])"

definition lits :: "string \<Rightarrow> item list" where
  "lits s = map (\<lambda>c. One (Ch c)) s"

text \<open>\<^verbatim>\<open>/url\s*\((\s*\'?\"?[^\s\"\']*\'?\"?\s*)\)/g\<close>\<close>

definition url_re :: "item list" where
  "url_re = lits ''url'' @ [Star Space, One (Ch CHR ''(''), Star Space,
     Opt (Ch CHR 0x27), Opt (Ch CHR 0x22), Star NotSpaceQuote,
     Opt (Ch CHR 0x27), Opt (Ch CHR 0x22), Star Space, One (Ch CHR '')'')]"

text \<open>\<^verbatim>\<open>/url\s*\(\s*\'?\"?([^\s\"\']*)\'?\"?\s*\)/\<close>\<close>

definition url_capture_re :: "item list" where
  "url_capture_re = lits ''url'' @ [Star Space, One (Ch CHR ''(''), Star Space,
     Opt (Ch CHR 0x27), Opt (Ch CHR 0x22), Mark, Star NotSpaceQuote, Mark,
     Opt (Ch CHR 0x27), Opt (Ch CHR 0x22), Star Space, One (Ch CHR '')'')]"

text \<open>\<^verbatim>\<open>/\/\/\# sourceMappingURL\=.*\.map\s*/\<close>\<close>

definition sourcemap_re :: "item list" where
  "sourcemap_re = lits ''//# sourceMappingURL='' @ [Star NotLineTerm]
     @ lits ''.map'' @ [Star Space]"

section \<open>The environment\<close>

text \<open>
  The packages and the runtime the packager calls are parameters: the URL and
  path checkers, the file system, the network, the two classifiers, the decoders
  of a \<open>Buffer\<close>, the path functions, the two minifiers and the process
  environment. A failed promise or a thrown exception is \<open>Inl\<close>.
\<close>

datatype error = IOError | TypeError | MinifierError

record css_result =
  styles :: string
  errors :: "string list"

record env =
  isUrl :: "string \<Rightarrow> bool"
  isInvalidPath :: "string \<Rightarrow> bool"
  fs_read :: "string \<Rightarrow> error + buffer"
  http_get :: "string \<Rightarrow> js_object option \<Rightarrow> error + buffer"
  fileType :: "buffer \<Rightarrow> string option"
  isSvg :: "string \<Rightarrow> bool"
  utf8 :: "buffer \<Rightarrow> string"
  base64 :: "buffer \<Rightarrow> string"
  path_dirname :: "string \<Rightarrow> string"
  path_join :: "string \<Rightarrow> string \<Rightarrow> string"
  obfuscate :: "string \<Rightarrow> js_object option \<Rightarrow> error + string"
  clean_css :: "string \<Rightarrow> js_object option \<Rightarrow> error + css_result"
  node_env :: "string option"

text \<open>What a pass does to the outside, in the order it does it.\<close>

datatype event =
    Read string
  | Download string "js_object option"
  | Minify "string option"
  | Write string
  | OpenStream string
  | EndStream

datatype source = Single string | Group "string list"

record results =
  code :: string
  minify :: bool
  ext :: "string option"

record options =
  minify_opt :: bool
  watch_opt :: bool
  js_opt :: "js_object option"
  css_opt :: "js_object option"

section \<open>The packager\<close>

definition wrapInComment :: "string option \<Rightarrow> string \<Rightarrow> string" where
  "wrapInComment type c =
     (if type = Some ''js'' \<or> type = Some ''css''
      then js_join [CHR 0x0A] [''/*!'', c, ''*/'']
      else js_join [CHR 0x0A] [''<!--'', c, ''-->''])"

definition readFile :: "env \<Rightarrow> string \<Rightarrow> event list \<times> (error + buffer)" where
  "readFile E filepath = ([Read filepath], fs_read E filepath)"

definition downloadFile ::
  "env \<Rightarrow> string \<Rightarrow> js_object option \<Rightarrow> event list \<times> (error + buffer)" where
  "downloadFile E url reqOptions = ([Download url reqOptions], http_get E url reqOptions)"

definition getFile ::
  "env \<Rightarrow> string \<Rightarrow> js_object option \<Rightarrow> event list \<times> (error + buffer)" where
  "getFile E src reqOptions =
     (if isUrl E src then downloadFile E src reqOptions else readFile E src)"

text \<open>
  \<open>target.path\<close> is the destination string, so \<open>split\<close> and \<open>wrapInComment\<close>
  cannot throw and the two \<open>reject\<close> branches of \<open>parseFile\<close> are never taken.
\<close>

definition parseFile ::
  "env \<Rightarrow> string \<Rightarrow> string \<Rightarrow> js_object option \<Rightarrow> event list \<times> string" where
  "parseFile E src target_path reqOptions =
     (if \<not> isUrl E src \<and> isInvalidPath E src
      then ([], wrapInComment (nth_from_end 1 (js_split CHR ''.'' target_path)) src)
      else (case getFile E src reqOptions of
              (io, Inr buf) \<Rightarrow> (io, utf8 E buf)
            | (io, Inl err) \<Rightarrow>
                (io, wrapInComment (nth_from_end 1 (js_split CHR ''.'' target_path)) src)))"

text \<open>\<open>Promise.reduce\<close> over the members of a group, from the empty text.\<close>

fun reduce_files ::
  "env \<Rightarrow> string \<Rightarrow> js_object option \<Rightarrow> string list \<Rightarrow> event list \<times> string
     \<Rightarrow> event list \<times> string" where
  "reduce_files E target_path reqOptions [] acc = acc"
| "reduce_files E target_path reqOptions (file # files) (io, c) =
     (case parseFile E file target_path reqOptions of
        (io', res) \<Rightarrow>
          reduce_files E target_path reqOptions files (io @ io', c @ [CHR 0x0A] @ res))"

definition processSource ::
  "env \<Rightarrow> source \<Rightarrow> string \<Rightarrow> js_object option \<Rightarrow> event list \<times> results" where
  "processSource E src target_path reqOptions =
     (case src of
        Single s \<Rightarrow>
          (case parseFile E s target_path reqOptions of
             (io, c) \<Rightarrow>
               (let parts = js_split CHR ''.'' s
                in (io, \<lparr>code = c,
                         minify = (\<not> isInvalidPath E s \<and> nth_from_end 2 parts \<noteq> Some ''min''),
                         ext = nth_from_end 1 parts\<rparr>)))
      | Group files \<Rightarrow>
          (case reduce_files E target_path reqOptions files ([], []) of
             (io, c) \<Rightarrow>
               (let parts = js_split CHR ''.'' target_path
                in (io, \<lparr>code = c,
                         minify = (nth_from_end 2 parts \<noteq> Some ''min''),
                         ext = nth_from_end 1 parts\<rparr>))))"

definition cleanseResults :: "results \<Rightarrow> results" where
  "cleanseResults r = r\<lparr>code := js_trim (rx_remove_first sourcemap_re (code r))\<rparr>"

text \<open>
  The \<open>type\<close> of \<open>replace\<close>: the sniffed media type, else the SVG media type
  when the text is SVG, else \<open>undefined\<close>.
\<close>

definition inline_type :: "env \<Rightarrow> buffer \<Rightarrow> string option" where
  "inline_type E file =
     (case fileType E file of
        Some mime \<Rightarrow> Some mime
      | None \<Rightarrow> (if isSvg E (utf8 E file) then Some ''image/svg+xml'' else None))"

definition data_uri :: "env \<Rightarrow> string \<Rightarrow> buffer \<Rightarrow> string" where
  "data_uri E mime file =
     concat [''url('' @ [CHR 0x27], ''data:'', mime, '';charset=utf-8;'', ''base64,'',
       base64 E file, [CHR 0x27] @ '')'']"

text \<open>
  \<open>replace\<close> assigns the variable \<open>code\<close> of \<open>encodeExternalResources\<close>; reading
  \<open>type.mime\<close> of an undefined \<open>type\<close> throws before the assignment.
\<close>

definition replace :: "env \<Rightarrow> string \<Rightarrow> string \<Rightarrow> buffer \<Rightarrow> error + string" where
  "replace E c match file =
     (case inline_type E file of
        None \<Rightarrow> Inl TypeError
      | Some mime \<Rightarrow> Inr (js_replace c match (data_uri E mime file)))"

text \<open>
  One iteration of \<open>Promise.each\<close> over the matches: the events, and the new
  value of \<open>code\<close> or the error that rejects the iteration. The entry an array,
  \<open>path.dirname\<close> throws before any file is read.
\<close>

definition each_match ::
  "env \<Rightarrow> source \<Rightarrow> string \<Rightarrow> string \<Rightarrow> event list \<times> (error + string)" where
  "each_match E src c match =
     (case rx_search url_capture_re match of
        None \<Rightarrow> ([], Inl TypeError)
      | Some (pre, ms) \<Rightarrow>
          (let url = js_trim (capture1 ms)
           in if starts_with ''data:'' url then ([], Inr c)
              else if starts_with ''http://'' url \<or> starts_with ''https://'' url
              then (case downloadFile E url None of
                      (io, Inl err) \<Rightarrow> (io, Inl err)
                    | (io, Inr file) \<Rightarrow> (io, replace E c match file))
              else (case src of
                      Group files \<Rightarrow> ([], Inl TypeError)
                    | Single s \<Rightarrow>
                        (case readFile E (path_join E (path_dirname E s) url) of
                           (io, Inl err) \<Rightarrow> (io, Inl err)
                         | (io, Inr file) \<Rightarrow> (io, replace E c match file)))))"

text \<open>
  \<open>Promise.each\<close> over the matches, one after the other, on the events so far and
  the current value of \<open>code\<close>. The \<open>then\<close> and the \<open>catch\<close> of the source both
  resolve with the variable \<open>code\<close> as it stands.
\<close>

fun each_matches ::
  "env \<Rightarrow> source \<Rightarrow> string list \<Rightarrow> event list \<times> string \<Rightarrow> event list \<times> string" where
  "each_matches E src [] acc = acc"
| "each_matches E src (match # matches) (io, c) =
     (case each_match E src c match of
        (io', Inl err) \<Rightarrow> (io @ io', c)
      | (io', Inr c') \<Rightarrow> each_matches E src matches (io @ io', c'))"

definition encodeExternalResources ::
  "env \<Rightarrow> string \<Rightarrow> source \<Rightarrow> event list \<times> string" where
  "encodeExternalResources E c src =
     (case js_match_all url_re 0 c of
        [] \<Rightarrow> ([], c)
      | matches \<Rightarrow> each_matches E src matches ([], c))"

definition minifyCss :: "env \<Rightarrow> string \<Rightarrow> js_object option \<Rightarrow> error + string" where
  "minifyCss E data opts =
     (case clean_css E data opts of
        Inl err \<Rightarrow> Inl err
      | Inr result \<Rightarrow> (if errors result \<noteq> [] then Inl MinifierError else Inr (styles result)))"

definition minifyJs :: "env \<Rightarrow> string \<Rightarrow> js_object option \<Rightarrow> error + string" where
  "minifyJs E data opts = obfuscate E data opts"

definition attemptMinify :: "env \<Rightarrow> string option \<Rightarrow> string \<Rightarrow> options \<Rightarrow> string" where
  "attemptMinify E type c opts =
     (case (if type = Some ''js'' then minifyJs E c (js_opt opts)
            else if type = Some ''css'' then minifyCss E c (css_opt opts)
            else Inr c) of
        Inr out \<Rightarrow> out
      | Inl err \<Rightarrow> c)"

definition isProd :: "env \<Rightarrow> options \<Rightarrow> bool" where
  "isProd E opts =
     (minify_opt opts \<or>
      (case node_env E of None \<Rightarrow> False | Some v \<Rightarrow> js_includes ''production'' v))"

text \<open>The three stages of the callback of \<open>loopFiles\<close> for one entry.\<close>

definition resolve_stage ::
  "env \<Rightarrow> source \<Rightarrow> string \<Rightarrow> js_object option \<Rightarrow> event list \<times> results" where
  "resolve_stage E src target_path reqOptions =
     (case processSource E src target_path reqOptions of
        (io, res) \<Rightarrow>
          (let res' = cleanseResults res
           in if ext res' = Some ''js'' then (io, res')
              else (case encodeExternalResources E (code res') src of
                      (io', c) \<Rightarrow> (io @ io', res'\<lparr>code := c\<rparr>))))"

definition minify_stage :: "env \<Rightarrow> options \<Rightarrow> results \<Rightarrow> event list \<times> string" where
  "minify_stage E opts res =
     (if \<not> isProd E opts \<or> (isProd E opts \<and> \<not> minify res) then ([], code res)
      else ([Minify (ext res)], attemptMinify E (ext res) (code res) opts))"

definition loop_entry ::
  "env \<Rightarrow> options \<Rightarrow> string \<Rightarrow> js_object option \<Rightarrow> source \<Rightarrow> event list" where
  "loop_entry E opts target_path reqOptions src =
     (case resolve_stage E src target_path reqOptions of
        (io, res) \<Rightarrow>
          (case minify_stage E opts res of
             (io', out) \<Rightarrow> io @ io' @ [Write (out @ [CHR 0x0A])]))"

text \<open>\<open>Promise.each\<close> over the entries: the events so far are threaded through.\<close>

fun each_source ::
  "env \<Rightarrow> options \<Rightarrow> string \<Rightarrow> js_object option \<Rightarrow> source list \<Rightarrow> event list
     \<Rightarrow> event list" where
  "each_source E opts target_path reqOptions [] log = log"
| "each_source E opts target_path reqOptions (src # srcs) log =
     each_source E opts target_path reqOptions srcs
       (log @ loop_entry E opts target_path reqOptions src)"

definition loopFiles ::
  "env \<Rightarrow> source list \<Rightarrow> string \<Rightarrow> options \<Rightarrow> js_object option \<Rightarrow> event list" where
  "loopFiles E sources target_path opts reqOptions =
     each_source E opts target_path reqOptions sources []"

definition default_options :: options where
  "default_options = \<lparr>minify_opt = False, watch_opt = False, js_opt = None, css_opt = None\<rparr>"

text \<open>
  One call of \<open>bundle\<close> (a reserved word here, hence \<open>bundle_call\<close>): the events of the pass and whether it goes on to
  \<open>watch\<close>. Errors of the output stream itself are not modelled.
\<close>

definition bundle_call ::
  "env \<Rightarrow> source list \<Rightarrow> string \<Rightarrow> options option \<Rightarrow> js_object option
     \<Rightarrow> event list \<times> bool" where
  "bundle_call E sources destination opts reqOptions =
     (let opts' = (case opts of None \<Rightarrow> default_options | Some v \<Rightarrow> v)
      in (OpenStream destination # loopFiles E sources destination opts' reqOptions
            @ [EndStream],
          watch_opt opts'))"

text \<open>The texts written by a pass, and the content of the output file.\<close>

fun written :: "event list \<Rightarrow> string list" where
  "written [] = []"
| "written (Write s # evs) = s # written evs"
| "written (ev # evs) = written evs"

definition output_text :: "event list \<Rightarrow> string" where
  "output_text evs = concat (written evs)"

section \<open>Reading a pass\<close>

text \<open>
  The events of one entry before its write, and the text of the entry that is
  written (without the newline).
\<close>

definition entry_io ::
  "env \<Rightarrow> options \<Rightarrow> string \<Rightarrow> js_object option \<Rightarrow> source \<Rightarrow> event list" where
  "entry_io E opts target_path reqOptions src =
     fst (resolve_stage E src target_path reqOptions)
       @ fst (minify_stage E opts (snd (resolve_stage E src target_path reqOptions)))"

definition entry_out ::
  "env \<Rightarrow> options \<Rightarrow> string \<Rightarrow> js_object option \<Rightarrow> source \<Rightarrow> string" where
  "entry_out E opts target_path reqOptions src =
     snd (minify_stage E opts (snd (resolve_stage E src target_path reqOptions)))"

text \<open>
  The value of \<open>code\<close> after the iterations over \<open>matches\<close> when none of them
  fails; \<open>None\<close> when one does.
\<close>

fun all_inlined :: "env \<Rightarrow> source \<Rightarrow> string list \<Rightarrow> string \<Rightarrow> string option" where
  "all_inlined E src [] c = Some c"
| "all_inlined E src (match # matches) c =
     (case snd (each_match E src c match) of
        Inl err \<Rightarrow> None
      | Inr c' \<Rightarrow> all_inlined E src matches c')"

text \<open>Whether the content of an identifier is the literal fallback of \<open>parseFile\<close>.\<close>

definition fell_back :: "env \<Rightarrow> string \<Rightarrow> js_object option \<Rightarrow> bool" where
  "fell_back E src reqOptions =
     ((\<not> isUrl E src \<and> isInvalidPath E src)
      \<or> (case snd (getFile E src reqOptions) of Inl err \<Rightarrow> True | Inr buf \<Rightarrow> False))"

text \<open>Whether a match is a reference that is a data URI already.\<close>

definition is_data_ref :: "string \<Rightarrow> bool" where
  "is_data_ref match =
     (case rx_search url_capture_re match of
        None \<Rightarrow> False
      | Some (pre, ms) \<Rightarrow> starts_with ''data:'' (js_trim (capture1 ms)))"

text \<open>No white space at either end.\<close>

definition trimmed :: "string \<Rightarrow> bool" where
  "trimmed s = (s = [] \<or> (\<not> is_space (hd s) \<and> \<not> is_space (last s)))"

section \<open>Watching\<close>

text \<open>
  Modelled from the spec: the throttle of \<open>watch\<close> (the package
  \<open>generic-throttle\<close>, not part of the source) is a single slot with a queue of
  pending requests. A request while the slot is free takes the slot and starts
  its callback; a request while the slot is taken is queued. The slot is given
  back, and the next queued request started, when the callback calls the
  \<open>resolve\<close> or the \<open>reject\<close> it is given; \<open>clear\<close> empties the queue.
\<close>

record throttle =
  busy :: bool
  pending :: nat

text \<open>\<open>throttle.acquire(fn)\<close>: the new throttle, and whether \<open>fn\<close> starts now.\<close>

definition throttle_acquire :: "throttle \<Rightarrow> throttle \<times> bool" where
  "throttle_acquire th =
     (if busy th then (th\<lparr>pending := Suc (pending th)\<rparr>, False)
      else (th\<lparr>busy := True\<rparr>, True))"

definition throttle_clear :: "throttle \<Rightarrow> throttle" where
  "throttle_clear th = th\<lparr>pending := 0\<rparr>"

text \<open>
  From the source: every call of \<open>watch\<close> makes a throttle and a watcher of its
  own. The callback that \<open>_bundle\<close> passes to \<open>acquire\<close> clears the queue and
  starts a pass, a call of \<open>bundle\<close> with the same options, which calls \<open>watch\<close>
  again once its entries are written. The callback never calls its \<open>resolve\<close> or
  its \<open>reject\<close>, so no step gives a slot back. The state is one watcher per call
  of \<open>watch\<close>, in the order of the calls (its throttle, and whether the pass it
  started is in flight), and the number of passes the watchers have started.
\<close>

record watcher =
  throttle_of :: throttle
  flying :: bool

record watching =
  watchers :: "watcher list"
  started :: nat

datatype watch_event = Change | PassDone nat

definition new_watcher :: watcher where
  "new_watcher = \<lparr>throttle_of = \<lparr>busy = False, pending = 0\<rparr>, flying = False\<rparr>"

definition in_flight :: "watching \<Rightarrow> nat" where
  "in_flight st = length (filter flying (watchers st))"

text \<open>\<open>_bundle\<close> of one watcher, called on a change.\<close>

definition on_change :: "watcher \<Rightarrow> watcher" where
  "on_change w =
     (if snd (throttle_acquire (throttle_of w))
      then \<lparr>throttle_of = throttle_clear (fst (throttle_acquire (throttle_of w))),
            flying = True\<rparr>
      else w\<lparr>throttle_of := fst (throttle_acquire (throttle_of w))\<rparr>)"

text \<open>
  \<open>Change\<close>: the file system reports a change and every watcher calls its
  \<open>_bundle\<close>. \<open>PassDone i\<close>: the pass started through the \<open>i\<close>-th watcher ends and
  its \<open>bundle\<close> calls \<open>watch\<close>: a new watcher with a free throttle.
\<close>

fun watch_step :: "watching \<Rightarrow> watch_event \<Rightarrow> watching" where
  "watch_step st Change =
     \<lparr>watchers = map on_change (watchers st),
      started = started st
        + length (filter (\<lambda>w. snd (throttle_acquire (throttle_of w))) (watchers st))\<rparr>"
| "watch_step st (PassDone i) =
     (if i < length (watchers st) \<and> flying (watchers st ! i)
      then st\<lparr>watchers := (watchers st)[i := (watchers st ! i)\<lparr>flying := False\<rparr>]
                 @ [new_watcher]\<rparr>
      else st)"

definition watch_run :: "watching \<Rightarrow> watch_event list \<Rightarrow> watching" where
  "watch_run st evs = foldl watch_step st evs"

text \<open>The state after the first call of \<open>bundle\<close> with the \<open>watch\<close> option.\<close>

definition watch_start :: watching where
  "watch_start = \<lparr>watchers = [new_watcher], started = 0\<rparr>"

text \<open>A free slot or a pass in flight: what can still put a pass in flight.\<close>

definition weight :: "watcher \<Rightarrow> nat" where
  "weight w = (if busy (throttle_of w) then 0 else 1) + (if flying w then 1 else 0)"

section \<open>A small environment for the examples\<close>

definition b64_digit :: "nat \<Rightarrow> char" where
  "b64_digit n =
     ''ABCDEFGHIJKLMNOPQRSTUVWXYZabcdefghijklmnopqrstuvwxyz0123456789+/'' ! (n mod 64)"

fun base64_encode :: "nat list \<Rightarrow> string" where
  "base64_encode [] = []"
| "base64_encode [a] =
     [b64_digit (a div 4), b64_digit ((a mod 4) * 16), CHR ''='', CHR ''='']"
| "base64_encode [a, b] =
     [b64_digit (a div 4), b64_digit ((a mod 4) * 16 + b div 16),
      b64_digit ((b mod 16) * 4), CHR ''='']"
| "base64_encode (a # b # c # r) =
     [b64_digit (a div 4), b64_digit ((a mod 4) * 16 + b div 16),
      b64_digit ((b mod 16) * 4 + c div 64), b64_digit (c mod 64)] @ base64_encode r"

text \<open>The eight bytes of the PNG signature.\<close>

definition demo_png :: buffer where
  "demo_png = [CHR 0x89, CHR ''P'', CHR ''N'', CHR ''G'', CHR 0x0D, CHR 0x0A, CHR 0x1A, CHR 0x0A]"

definition demo_dirname :: "string \<Rightarrow> string" where
  "demo_dirname s =
     (case rev (js_split CHR ''/'' s) of
        [] \<Rightarrow> ''.''
      | [name] \<Rightarrow> ''.''
      | name # dirs \<Rightarrow> js_join ''/'' (rev dirs))"

definition demo_files :: "string \<Rightarrow> error + buffer" where
  "demo_files p =
     (if p = ''css/a.png'' then Inr demo_png
      else if p = ''css/site.css'' then Inr ''a{b:url(a.png)} c{d:url(gone.png)}''
      else if p = ''css/odd.css'' then Inr ''url(data:url(a.png)) url(a.png)''
      else if p = ''css/inline.css'' then Inr ''a{b:url(data:x)} c{d:url(gone.png)}''
      else if p = ''lib/a.js'' then Inr ''a;\<newline>//# sourceMappingURL=a.js.map\<newline>''
      else if p = ''lib/b.js'' then Inr ''b;\<newline>//# sourceMappingURL=b.js.map\<newline>''
      else Inl IOError)"

definition demo_env :: env where
  "demo_env =
     \<lparr>isUrl = (\<lambda>s. starts_with ''http://'' s \<or> starts_with ''https://'' s),
      isInvalidPath = (\<lambda>s. CHR ''!'' \<in> set s \<or> CHR ''<'' \<in> set s \<or> CHR ''>'' \<in> set s),
      fs_read = demo_files,
      http_get = (\<lambda>url reqOptions. Inl IOError),
      fileType = (\<lambda>file. if starts_with demo_png file then Some ''image/png'' else None),
      isSvg = (\<lambda>text. js_includes ''<svg'' text),
      utf8 = (\<lambda>file. file),
      base64 = (\<lambda>file. base64_encode (map of_char file)),
      path_dirname = demo_dirname,
      path_join = (\<lambda>dir name. dir @ ''/'' @ name),
      obfuscate = (\<lambda>data opts. Inr data),
      clean_css = (\<lambda>data opts. Inr \<lparr>styles = data, errors = []\<rparr>),
      node_env = None\<rparr>"

definition demo_minify :: options where
  "demo_minify = \<lparr>minify_opt = True, watch_opt = False, js_opt = None, css_opt = None\<rparr>"

definition demo_sourcemap_env :: env where
  "demo_sourcemap_env =
     demo_env\<lparr>obfuscate :=
       (\<lambda>data opts. Inr (data @ ''\<newline>//# sourceMappingURL=out.js.map''))\<rparr>"

section \<open>Helper lemmas\<close>

lemma written_append: "written (a @ b) = written a @ written b"
  by (induction a rule: written.induct) auto

lemma each_source_append:
  "each_source E opts t r srcs log = log @ concat (map (loop_entry E opts t r) srcs)"
  by (induction srcs arbitrary: log) auto

lemma loopFiles_concat:
  "loopFiles E srcs t opts r = concat (map (loop_entry E opts t r) srcs)"
  by (simp add: loopFiles_def each_source_append)

lemma loop_entry_split:
  "loop_entry E opts t r src =
     entry_io E opts t r src @ [Write (entry_out E opts t r src @ [CHR 0x0A])]"
  by (simp add: loop_entry_def entry_io_def entry_out_def split: prod.splits)

lemma loop_entry_fun:
  "loop_entry E opts t r =
     (\<lambda>src. entry_io E opts t r src @ [Write (entry_out E opts t r src @ [CHR 0x0A])])"
  by (rule ext) (rule loop_entry_split)

lemma parseFile_written: "written (fst (parseFile E s t r)) = []"
  by (simp add: parseFile_def getFile_def readFile_def downloadFile_def split: sum.splits)

lemma reduce_files_written:
  "written io = [] \<Longrightarrow> written (fst (reduce_files E t r fs (io, c))) = []"
proof (induction fs arbitrary: io c)
  case Nil
  then show ?case by simp
next
  case (Cons f fs)
  obtain io' res where p: "parseFile E f t r = (io', res)"
    by (cases "parseFile E f t r")
  have "written io' = []"
    using parseFile_written [of E f t r] p by simp
  with Cons.prems have "written (io @ io') = []"
    by (simp add: written_append)
  from Cons.IH [OF this] show ?case
    by (simp add: p)
qed

lemma processSource_written: "written (fst (processSource E src t r)) = []"
proof (cases src)
  case (Single s)
  obtain io c where p: "parseFile E s t r = (io, c)"
    by (cases "parseFile E s t r")
  have "written io = []"
    using parseFile_written [of E s t r] p by simp
  then show ?thesis
    by (simp add: processSource_def Single p Let_def)
next
  case (Group fs)
  obtain io c where p: "reduce_files E t r fs ([], []) = (io, c)"
    by (cases "reduce_files E t r fs ([], [])")
  have "written io = []"
    using reduce_files_written [of "[]" E t r fs "[]"] p by simp
  then show ?thesis
    by (simp add: processSource_def Group p Let_def)
qed

lemma each_match_written: "written (fst (each_match E src c m)) = []"
  by (simp add: each_match_def readFile_def downloadFile_def Let_def
      split: option.splits prod.splits sum.splits source.splits)

lemma each_matches_written:
  "written io = [] \<Longrightarrow> written (fst (each_matches E src ms (io, c))) = []"
proof (induction ms arbitrary: io c)
  case Nil
  then show ?case by simp
next
  case (Cons m ms)
  obtain io' res where p: "each_match E src c m = (io', res)"
    by (cases "each_match E src c m")
  have "written io' = []"
    using each_match_written [of E src c m] p by simp
  with Cons.prems have w: "written (io @ io') = []"
    by (simp add: written_append)
  show ?case
  proof (cases res)
    case (Inl err)
    with w show ?thesis by (simp add: p)
  next
    case (Inr c')
    with Cons.IH [OF w] show ?thesis by (simp add: p)
  qed
qed

lemma encodeExternalResources_written:
  "written (fst (encodeExternalResources E c src)) = []"
proof (cases "js_match_all url_re 0 c")
  case Nil
  then show ?thesis by (simp add: encodeExternalResources_def)
next
  case (Cons m ms)
  have "written (fst (each_matches E src (m # ms) ([], c))) = []"
    by (rule each_matches_written) simp
  with Cons show ?thesis by (simp add: encodeExternalResources_def)
qed

lemma resolve_stage_written: "written (fst (resolve_stage E src t r)) = []"
proof -
  obtain io res where p: "processSource E src t r = (io, res)"
    by (cases "processSource E src t r")
  have a: "written io = []"
    using processSource_written [of E src t r] p by simp
  obtain io' c where q:
    "encodeExternalResources E (code (cleanseResults res)) src = (io', c)"
    by (cases "encodeExternalResources E (code (cleanseResults res)) src")
  have b: "written io' = []"
    using encodeExternalResources_written [of E "code (cleanseResults res)" src] q by simp
  from a b show ?thesis
    by (simp add: resolve_stage_def p q Let_def written_append)
qed

lemma minify_stage_written: "written (fst (minify_stage E opts res)) = []"
  by (simp add: minify_stage_def)

lemma entry_io_written: "written (entry_io E opts t r src) = []"
  by (simp add: entry_io_def written_append resolve_stage_written minify_stage_written)

lemma loop_entry_written:
  "written (loop_entry E opts t r src) = [entry_out E opts t r src @ [CHR 0x0A]]"
  by (simp add: loop_entry_split written_append entry_io_written)

lemma written_concat_entries:
  "written (concat (map (loop_entry E opts t r) srcs)) =
     map (\<lambda>src. entry_out E opts t r src @ [CHR 0x0A]) srcs"
  by (induction srcs) (simp_all add: written_append loop_entry_written)

lemma js_split_not_Nil: "js_split sep s \<noteq> []"
  by (induction s) (auto split: list.splits)

lemma js_split_plain: "sep \<notin> set s \<Longrightarrow> js_split sep s = [s]"
  by (induction s) auto

lemma js_split_append:
  "js_split sep (a @ sep # b) = js_split sep a @ js_split sep b"
proof (induction a)
  case Nil
  then show ?case by simp
next
  case (Cons x a)
  obtain p ps where "js_split sep a = p # ps"
    using js_split_not_Nil [of sep a] by (cases "js_split sep a") auto
  with Cons show ?case by simp
qed

lemma nth_from_end_last: "nth_from_end (Suc 0) (xs @ [x]) = Some x"
  by (simp add: nth_from_end_def)

lemma last_part_plain:
  "CHR ''.'' \<notin> set e \<Longrightarrow> nth_from_end (Suc 0) (js_split CHR ''.'' e) = Some e"
  by (simp add: js_split_plain nth_from_end_def)

lemma last_part_dotted:
  assumes "CHR ''.'' \<notin> set e"
  shows "nth_from_end (Suc 0) (js_split CHR ''.'' (stem @ CHR ''.'' # e)) = Some e"
proof -
  have "js_split CHR ''.'' (stem @ CHR ''.'' # e) = js_split CHR ''.'' stem @ [e]"
    using assms by (simp add: js_split_append js_split_plain)
  then show ?thesis
    by (simp add: nth_from_end_last)
qed

lemma reduce_files_concat:
  "reduce_files E t r fs (io, c) =
     (io @ concat (map (\<lambda>f. fst (parseFile E f t r)) fs),
      c @ concat (map (\<lambda>f. CHR 0x0A # snd (parseFile E f t r)) fs))"
  by (induction fs arbitrary: io c) (simp_all split: prod.splits)

lemma parseFile_dest:
  "nth_from_end 1 (js_split CHR ''.'' d1) = nth_from_end 1 (js_split CHR ''.'' d2)
   \<Longrightarrow> parseFile E s d1 r = parseFile E s d2 r"
  by (simp add: parseFile_def)

lemma processSource_dest:
  assumes "nth_from_end 1 (js_split CHR ''.'' d1) = nth_from_end 1 (js_split CHR ''.'' d2)"
  shows "fst (processSource E src d1 r) = fst (processSource E src d2 r)"
    and "code (snd (processSource E src d1 r)) = code (snd (processSource E src d2 r))"
    and "ext (snd (processSource E src d1 r)) = ext (snd (processSource E src d2 r))"
  using assms parseFile_dest [OF assms, of E]
  by (cases src; simp add: processSource_def reduce_files_concat Let_def split: prod.splits)+

lemma cleanseResults_ext: "ext (cleanseResults res) = ext res"
  by (simp add: cleanseResults_def)

lemma resolve_stage_parts:
  "fst (resolve_stage E src t r) =
     fst (processSource E src t r)
       @ (if ext (snd (processSource E src t r)) = Some ''js'' then []
          else fst (encodeExternalResources E
                 (code (cleanseResults (snd (processSource E src t r)))) src))"
  "code (snd (resolve_stage E src t r)) =
     (if ext (snd (processSource E src t r)) = Some ''js''
      then code (cleanseResults (snd (processSource E src t r)))
      else snd (encodeExternalResources E
             (code (cleanseResults (snd (processSource E src t r)))) src))"
  "ext (snd (resolve_stage E src t r)) = ext (snd (processSource E src t r))"
  "minify (snd (resolve_stage E src t r)) = minify (snd (processSource E src t r))"
  by (simp_all add: resolve_stage_def Let_def cleanseResults_def split: prod.splits)

lemma cleanseResults_code:
  "code (cleanseResults res) = js_trim (rx_remove_first sourcemap_re (code res))"
  by (simp add: cleanseResults_def)

lemma resolve_stage_dest:
  assumes "nth_from_end 1 (js_split CHR ''.'' d1) = nth_from_end 1 (js_split CHR ''.'' d2)"
  shows "fst (resolve_stage E src d1 r) = fst (resolve_stage E src d2 r)"
    and "code (snd (resolve_stage E src d1 r)) = code (snd (resolve_stage E src d2 r))"
  by (simp_all only: resolve_stage_parts cleanseResults_code processSource_dest [OF assms])

lemma minify_stage_off:
  "\<not> (isProd E opts \<and> minify res) \<Longrightarrow> minify_stage E opts res = ([], code res)"
  by (auto simp: minify_stage_def)

lemma minify_stage_on:
  "isProd E opts \<Longrightarrow> minify res \<Longrightarrow>
   minify_stage E opts res = ([Minify (ext res)], attemptMinify E (ext res) (code res) opts)"
  by (simp add: minify_stage_def)

lemma loop_entry_dest:
  assumes "nth_from_end 1 (js_split CHR ''.'' d1) = nth_from_end 1 (js_split CHR ''.'' d2)"
    and "\<not> isProd E opts"
  shows "loop_entry E opts d1 r src = loop_entry E opts d2 r src"
  using assms(2) resolve_stage_dest [OF assms(1), of E src r]
  by (simp add: loop_entry_split entry_io_def entry_out_def minify_stage_off)

lemma last_dropWhile: "dropWhile P xs \<noteq> [] \<Longrightarrow> last (dropWhile P xs) = last xs"
  by (induction xs) auto

lemma trimmed_js_trim: "trimmed (js_trim s)"
proof (cases "dropWhile is_space (rev (dropWhile is_space s)) = []")
  case True
  then show ?thesis by (simp add: trimmed_def js_trim_def)
next
  case False
  let ?t = "dropWhile is_space s"
  let ?u = "dropWhile is_space (rev ?t)"
  have t: "?t \<noteq> []"
  proof
    assume e: "?t = []"
    from False show False
      by (simp only: e rev.simps dropWhile.simps simp_thms)
  qed
  have "\<not> is_space (hd ?u)"
    using False by (rule hd_dropWhile)
  then have a: "\<not> is_space (last (rev ?u))"
    using False by (simp add: last_rev)
  have "last ?u = last (rev ?t)"
    using False by (rule last_dropWhile)
  then have "hd (rev ?u) = hd ?t"
    using False t by (simp add: hd_rev last_rev)
  moreover have "\<not> is_space (hd ?t)"
    using t by (rule hd_dropWhile)
  ultimately have b: "\<not> is_space (hd (rev ?u))" by simp
  from a b show ?thesis
    by (simp add: trimmed_def js_trim_def)
qed

lemma entry_out_cases:
  "entry_out E opts t r src =
     (if isProd E opts \<and> minify (snd (resolve_stage E src t r))
      then attemptMinify E (ext (snd (resolve_stage E src t r)))
             (code (snd (resolve_stage E src t r))) opts
      else code (snd (resolve_stage E src t r)))"
  by (simp add: entry_out_def minify_stage_def)

lemma each_matches_snd:
  "snd (each_matches E src ms (io, c)) = snd (each_matches E src ms (io', c))"
proof (induction ms arbitrary: io io' c)
  case Nil
  then show ?case by simp
next
  case (Cons m ms)
  obtain io1 res where p: "each_match E src c m = (io1, res)"
    by (cases "each_match E src c m")
  show ?case
  proof (cases res)
    case (Inl err)
    then show ?thesis by (simp add: p)
  next
    case (Inr c')
    with Cons.IH [of "io @ io1" c' "io' @ io1"] show ?thesis
      by (simp add: p)
  qed
qed

lemma each_matches_stops:
  assumes "all_inlined E src pre c = Some c'"
    and "snd (each_match E src c' m) = Inl err"
  shows "snd (each_matches E src (pre @ m # post) (io, c)) = c'"
  using assms
proof (induction pre arbitrary: c io)
  case Nil
  then show ?case
    by (cases "each_match E src c m") simp
next
  case (Cons p pre)
  obtain io1 res where q: "each_match E src c p = (io1, res)"
    by (cases "each_match E src c p")
  from Cons.prems(1) q obtain c1 where r: "res = Inr c1"
    and a: "all_inlined E src pre c1 = Some c'"
    by (cases res) auto
  from Cons.IH [OF a Cons.prems(2), of "io @ io1"] show ?case
    by (simp add: q r)
qed

lemma each_match_data: "is_data_ref m \<Longrightarrow> each_match E src c m = ([], Inr c)"
  by (auto simp: is_data_ref_def each_match_def Let_def split: option.splits)

lemma all_inlined_data: "list_all is_data_ref pre \<Longrightarrow> all_inlined E src pre c = Some c"
  by (induction pre) (simp_all add: each_match_data)

lemma weight_on_change: "weight (on_change w) \<le> weight w"
  by (simp add: weight_def on_change_def throttle_acquire_def throttle_clear_def)

lemma weight_sum_change:
  "sum_list (map weight (map on_change ws)) \<le> sum_list (map weight ws)"
proof (induction ws)
  case Nil
  then show ?case by simp
next
  case (Cons w ws)
  with weight_on_change [of w] show ?case by simp
qed

lemma weight_sum_done:
  "i < length ws \<Longrightarrow> flying (ws ! i) \<Longrightarrow>
   sum_list (map weight (ws[i := (ws ! i)\<lparr>flying := False\<rparr>] @ [new_watcher])) =
     sum_list (map weight ws)"
proof (induction ws arbitrary: i)
  case Nil
  then show ?case by simp
next
  case (Cons w ws)
  show ?case
  proof (cases i)
    case 0
    with Cons.prems show ?thesis
      by (simp add: weight_def new_watcher_def)
  next
    case (Suc j)
    with Cons.prems have "j < length ws" and "flying (ws ! j)"
      by simp_all
    from Cons.IH [OF this] Suc show ?thesis
      by simp
  qed
qed

lemma weight_sum_step:
  "sum_list (map weight (watchers (watch_step st ev))) \<le> sum_list (map weight (watchers st))"
proof (cases ev)
  case Change
  with weight_sum_change [of "watchers st"] show ?thesis by simp
next
  case (PassDone i)
  with weight_sum_done [of i "watchers st"] show ?thesis by simp
qed

lemma weight_sum_run:
  "sum_list (map weight (watchers (foldl watch_step st evs))) \<le>
     sum_list (map weight (watchers st))"
proof (induction evs arbitrary: st)
  case Nil
  then show ?case by simp
next
  case (Cons ev evs)
  from Cons.IH [of "watch_step st ev"] weight_sum_step [of st ev] show ?case
    by simp
qed

lemma flying_le_weight_sum: "length (filter flying ws) \<le> sum_list (map weight ws)"
  by (induction ws) (simp_all add: weight_def)

lemma in_flight_le_one: "in_flight (watch_run watch_start evs) \<le> 1"
proof -
  have "in_flight (watch_run watch_start evs) \<le>
      sum_list (map weight (watchers (foldl watch_step watch_start evs)))"
    by (simp add: in_flight_def watch_run_def flying_le_weight_sum)
  also have "\<dots> \<le> sum_list (map weight (watchers watch_start))"
    by (rule weight_sum_run)
  also have "\<dots> = 1"
    by (simp add: watch_start_def new_watcher_def weight_def)
  finally show ?thesis .
qed

section \<open>Claims\<close>

text \<open>
  C1. One pass over a source list of N entries writes exactly N segments, each
  ended by a newline, in the order of the list, and the entries are processed one
  after the other: the events of the pass are the events of the first entry, ended
  by its write, then those of the second entry, and so on; no entry writes before
  its last event.
\<close>

theorem loopFiles_sequential_segments:
  "loopFiles E srcs t opts r =
     concat (map (\<lambda>src. entry_io E opts t r src
                     @ [Write (entry_out E opts t r src @ [CHR 0x0A])]) srcs)
   \<and> written (loopFiles E srcs t opts r) =
       map (\<lambda>src. entry_out E opts t r src @ [CHR 0x0A]) srcs
   \<and> length (written (loopFiles E srcs t opts r)) = length srcs
   \<and> written (entry_io E opts t r src) = []"
proof -
  have a: "loopFiles E srcs t opts r =
     concat (map (\<lambda>src. entry_io E opts t r src
                     @ [Write (entry_out E opts t r src @ [CHR 0x0A])]) srcs)"
    by (simp only: loopFiles_concat loop_entry_fun)
  have b: "written (loopFiles E srcs t opts r) =
       map (\<lambda>src. entry_out E opts t r src @ [CHR 0x0A]) srcs"
    by (simp add: loopFiles_concat written_concat_entries)
  from a b show ?thesis
    by (simp add: entry_io_written)
qed


text \<open>
  C10. A source that is a URL whose download fails does not fail the pass: the
  entry resolves to the URL wrapped as a comment by the extension of the
  destination, as an unreadable file path does, and the entries after it are
  processed.
\<close>

theorem failed_download_is_wrapped:
  assumes "isUrl E s" and "http_get E s r = Inl err"
  shows "parseFile E s t r =
           ([Download s r], wrapInComment (nth_from_end 1 (js_split CHR ''.'' t)) s)
         \<and> (\<not> isUrl E p \<and> \<not> isInvalidPath E p \<and> fs_read E p = Inl err' \<longrightarrow>
              parseFile E p t r =
                ([Read p], wrapInComment (nth_from_end 1 (js_split CHR ''.'' t)) p))
         \<and> loopFiles E (pre @ Single s # post) t opts r =
              loopFiles E pre t opts r @ loop_entry E opts t r (Single s)
                @ loopFiles E post t opts r
         \<and> length (written (loopFiles E (pre @ Single s # post) t opts r)) =
              length pre + 1 + length post"
proof -
  have a: "parseFile E s t r =
           ([Download s r], wrapInComment (nth_from_end 1 (js_split CHR ''.'' t)) s)"
    using assms by (simp add: parseFile_def getFile_def downloadFile_def)
  have b: "\<not> isUrl E p \<and> \<not> isInvalidPath E p \<and> fs_read E p = Inl err' \<longrightarrow>
              parseFile E p t r =
                ([Read p], wrapInComment (nth_from_end 1 (js_split CHR ''.'' t)) p)"
    by (simp add: parseFile_def getFile_def readFile_def)
  have c: "loopFiles E (pre @ Single s # post) t opts r =
              loopFiles E pre t opts r @ loop_entry E opts t r (Single s)
                @ loopFiles E post t opts r"
    by (simp add: loopFiles_concat)
  have d: "length (written (loopFiles E (pre @ Single s # post) t opts r)) =
              length pre + 1 + length post"
    by (simp only: loopFiles_concat written_concat_entries) simp
  from a b c d show ?thesis by blast
qed

theorem failed_download_is_wrapped_witness:
  "isUrl demo_env ''http://cdn.test/lib.js''
   \<and> http_get demo_env ''http://cdn.test/lib.js'' None = Inl IOError
   \<and> parseFile demo_env ''http://cdn.test/lib.js'' ''out.js'' None =
       ([Download ''http://cdn.test/lib.js'' None], ''/*!\<newline>http://cdn.test/lib.js\<newline>*/'')
   \<and> written (loopFiles demo_env
         [Single ''lib/a.js'', Single ''http://cdn.test/lib.js'', Single ''lib/b.js'']
         ''out.js'' default_options None) =
       [''a;\<newline>'', ''/*!\<newline>http://cdn.test/lib.js\<newline>*/\<newline>'', ''b;\<newline>'']"
proof -
  have u: "isUrl demo_env ''http://cdn.test/lib.js''"
    by code_simp
  have h: "http_get demo_env ''http://cdn.test/lib.js'' None = Inl IOError"
    by code_simp
  have w: "wrapInComment (nth_from_end 1 (js_split CHR ''.'' ''out.js'')) ''http://cdn.test/lib.js''
      = ''/*!\<newline>http://cdn.test/lib.js\<newline>*/''"
    by code_simp
  have l: "written (loopFiles demo_env
         [Single ''lib/a.js'', Single ''http://cdn.test/lib.js'', Single ''lib/b.js'']
         ''out.js'' default_options None) =
       [''a;\<newline>'', ''/*!\<newline>http://cdn.test/lib.js\<newline>*/\<newline>'', ''b;\<newline>'']"
    by code_simp
  from failed_download_is_wrapped [OF u h, of "''out.js''"] w
  have "parseFile demo_env ''http://cdn.test/lib.js'' ''out.js'' None =
       ([Download ''http://cdn.test/lib.js'' None], ''/*!\<newline>http://cdn.test/lib.js\<newline>*/'')"
    by simp
  with u h l show ?thesis by blast
qed


text \<open>
  C4. A source that is not a URL and fails the path-validity check causes no read
  and no download, and resolves to the identifier wrapped as a comment chosen by
  the extension of the destination. The claim writes the comment with spaces; the
  code joins its three parts with newlines.
\<close>

theorem literal_source_form_counterexample:
  "\<not> isUrl demo_env ''hello world!'' \<and> isInvalidPath demo_env ''hello world!''
   \<and> parseFile demo_env ''hello world!'' ''out.js'' None = ([], ''/*!\<newline>hello world!\<newline>*/'')
   \<and> snd (parseFile demo_env ''hello world!'' ''out.js'' None) \<noteq> ''/*! hello world! */''
   \<and> parseFile demo_env ''hello world!'' ''out.html'' None = ([], ''<!--\<newline>hello world!\<newline>-->'')
   \<and> snd (parseFile demo_env ''hello world!'' ''out.html'' None) \<noteq> ''<!-- hello world! -->''"
  by code_simp

text \<open>
  C4, amended: the comment is \<open>/*!\<close>, a newline, the identifier, a newline and
  \<open>*/\<close> when the text after the last dot of the destination (the whole
  destination when it has no dot) is \<open>js\<close> or \<open>css\<close>, and \<open><!--\<close>, a newline,
  the identifier, a newline and \<open>-->\<close> otherwise; no read and no download occurs.
\<close>

theorem literal_source_wrapped:
  assumes "\<not> isUrl E s" and "isInvalidPath E s" and "CHR ''.'' \<notin> set e"
    and "dest = stem @ ''.'' @ e \<or> dest = e"
  shows "parseFile E s dest r =
           ([], if e = ''js'' \<or> e = ''css'' then ''/*!\<newline>'' @ s @ ''\<newline>*/''
                else ''<!--\<newline>'' @ s @ ''\<newline>-->'')"
proof -
  have "nth_from_end 1 (js_split CHR ''.'' dest) = Some e"
    using assms(3,4) by (auto simp: last_part_dotted last_part_plain)
  then show ?thesis
    using assms(1,2) by (simp add: parseFile_def wrapInComment_def)
qed

theorem literal_source_wrapped_witness:
  "\<not> isUrl demo_env ''hello world!'' \<and> isInvalidPath demo_env ''hello world!''
   \<and> CHR ''.'' \<notin> set ''css''
   \<and> parseFile demo_env ''hello world!'' ''dist/site.min.css'' None =
        ([], ''/*!\<newline>hello world!\<newline>*/'')"
proof -
  have a: "\<not> isUrl demo_env ''hello world!''" by code_simp
  have b: "isInvalidPath demo_env ''hello world!''" by code_simp
  have c: "CHR ''.'' \<notin> set ''css''" by simp
  have d: "''dist/site.min.css'' = ''dist/site.min'' @ ''.'' @ ''css'' \<or> ''dist/site.min.css'' = ''css''"
    by simp
  from literal_source_wrapped [OF a b c d, of None] a b c show ?thesis
    by simp
qed


text \<open>
  C7. A group of N members is resolved member by member, in order, and the texts
  are joined into one unit whose eligibility and extension come from the
  destination. The claim has N - 1 separating newlines and none leading; in the
  code the reduction starts from the empty text and puts a newline before every
  member.
\<close>

theorem group_separators_counterexample:
  "code (snd (processSource demo_env (Group [''lib/a.js'', ''lib/b.js'']) ''out.js'' None))
     = ''\<newline>a;\<newline>//# sourceMappingURL=a.js.map\<newline>\<newline>b;\<newline>//# sourceMappingURL=b.js.map\<newline>''
   \<and> code (snd (processSource demo_env (Group [''lib/a.js'', ''lib/b.js'']) ''out.js'' None))
     \<noteq> js_join ''\<newline>'' [snd (parseFile demo_env ''lib/a.js'' ''out.js'' None),
                       snd (parseFile demo_env ''lib/b.js'' ''out.js'' None)]"
  by code_simp

text \<open>
  C7, amended: the members are resolved in order and the text of the unit is the
  texts of the members, each preceded by a newline (N newlines, the first one
  leading, none trailing); the eligibility flag and the extension are those of
  the destination.
\<close>

theorem group_concatenation:
  "processSource E (Group fs) t r =
     (concat (map (\<lambda>f. fst (parseFile E f t r)) fs),
      \<lparr>code = concat (map (\<lambda>f. CHR 0x0A # snd (parseFile E f t r)) fs),
       minify = (nth_from_end 2 (js_split CHR ''.'' t) \<noteq> Some ''min''),
       ext = nth_from_end 1 (js_split CHR ''.'' t)\<rparr>)"
  by (simp add: processSource_def reduce_files_concat Let_def)

text \<open>
  C9. Without watching and without minification, two passes over the same
  unchanged sources write the same bytes. The claim allows any two destinations;
  the literal fallback and the treatment of a group depend on the extension of
  the destination.
\<close>

theorem two_destinations_counterexample:
  "\<not> isProd demo_env default_options
   \<and> \<not> snd (bundle_call demo_env [Single ''hello world!''] ''a.js'' None None)
   \<and> \<not> snd (bundle_call demo_env [Single ''hello world!''] ''b.html'' None None)
   \<and> output_text (fst (bundle_call demo_env [Single ''hello world!''] ''a.js'' None None))
        = ''/*!\<newline>hello world!\<newline>*/\<newline>''
   \<and> output_text (fst (bundle_call demo_env [Single ''hello world!''] ''b.html'' None None))
        = ''<!--\<newline>hello world!\<newline>-->\<newline>''
   \<and> output_text (fst (bundle_call demo_env [Single ''hello world!''] ''a.js'' None None))
        \<noteq> output_text (fst (bundle_call demo_env [Single ''hello world!''] ''b.html'' None None))"
  by code_simp

text \<open>
  C9, amended: without watching and without minification, two passes over the
  same unchanged sources into two destinations with the same extension (the text
  after the last dot) write the same bytes.
\<close>

theorem same_extension_same_output:
  assumes "nth_from_end 1 (js_split CHR ''.'' d1) = nth_from_end 1 (js_split CHR ''.'' d2)"
    and "\<not> isProd E opts" and "\<not> watch_opt opts"
  shows "output_text (fst (bundle_call E srcs d1 (Some opts) r)) =
           output_text (fst (bundle_call E srcs d2 (Some opts) r))
         \<and> \<not> snd (bundle_call E srcs d1 (Some opts) r)
         \<and> \<not> snd (bundle_call E srcs d2 (Some opts) r)"
proof -
  have "loop_entry E opts d1 r = loop_entry E opts d2 r"
    by (rule ext) (rule loop_entry_dest [OF assms(1,2)])
  then have "loopFiles E srcs d1 opts r = loopFiles E srcs d2 opts r"
    by (simp add: loopFiles_concat)
  then show ?thesis
    using assms(3) by (simp add: bundle_call_def output_text_def written_append)
qed

theorem same_extension_same_output_witness:
  "nth_from_end 1 (js_split CHR ''.'' ''dist/a.css'') = nth_from_end 1 (js_split CHR ''.'' ''b.min.css'')
   \<and> \<not> isProd demo_env default_options \<and> \<not> watch_opt default_options
   \<and> output_text (fst (bundle_call demo_env
         [Single ''css/site.css'', Single ''hello world!'', Group [''lib/a.js'', ''lib/b.js'']]
         ''dist/a.css'' (Some default_options) None))
     = output_text (fst (bundle_call demo_env
         [Single ''css/site.css'', Single ''hello world!'', Group [''lib/a.js'', ''lib/b.js'']]
         ''b.min.css'' (Some default_options) None))"
proof -
  have a: "nth_from_end 1 (js_split CHR ''.'' ''dist/a.css'')
      = nth_from_end 1 (js_split CHR ''.'' ''b.min.css'')"
    by code_simp
  have b: "\<not> isProd demo_env default_options" by code_simp
  have c: "\<not> watch_opt default_options" by code_simp
  from same_extension_same_output [OF a b c] a b c show ?thesis
    by blast
qed

text \<open>
  C5. Minification runs exactly when the \<open>minify\<close> option or the production
  signal is on and the unit is flagged eligible. The claim has the flag false
  whenever the content is the literal fallback; the code does not record the
  fallback: an unreadable file with a valid name stays eligible.
\<close>

theorem fallback_is_minified_counterexample:
  "fell_back demo_env ''missing.css'' None
   \<and> fst (parseFile demo_env ''missing.css'' ''out.css'' None) = [Read ''missing.css'']
   \<and> minify (snd (processSource demo_env (Single ''missing.css'') ''out.css'' None))
   \<and> loop_entry demo_env demo_minify ''out.css'' None (Single ''missing.css'')
       = [Read ''missing.css'', Minify (Some ''css''), Write ''/*!\<newline>missing.css\<newline>*/\<newline>'']"
  by code_simp

text \<open>
  C5, amended: minification runs exactly when (the \<open>minify\<close> option is set or
  \<open>NODE_ENV\<close> contains \<open>production\<close>) and the flag of the unit is true. For a
  single identifier the flag is false exactly when the identifier fails the
  path-validity check or its last but one dot-separated part is \<open>min\<close>; for a
  group it is false exactly when the last but one dot-separated part of the
  destination is \<open>min\<close>. When minification does not run, the code that reaches
  this step (cleansed and inlined before) is passed on unchanged.
\<close>

theorem minify_decision:
  "(Minify (ext res) \<in> set (fst (minify_stage E opts res))) = (isProd E opts \<and> minify res)
   \<and> isProd E opts =
       (minify_opt opts \<or> (\<exists>v. node_env E = Some v \<and> js_includes ''production'' v))
   \<and> minify (snd (processSource E (Single s) t r)) =
       (\<not> isInvalidPath E s \<and> nth_from_end 2 (js_split CHR ''.'' s) \<noteq> Some ''min'')
   \<and> minify (snd (processSource E (Group fs) t r)) =
       (nth_from_end 2 (js_split CHR ''.'' t) \<noteq> Some ''min'')
   \<and> (\<not> (isProd E opts \<and> minify res) \<longrightarrow> minify_stage E opts res = ([], code res))
   \<and> (isProd E opts \<and> minify res \<longrightarrow>
        minify_stage E opts res =
          ([Minify (ext res)], attemptMinify E (ext res) (code res) opts))"
proof -
  have a: "(Minify (ext res) \<in> set (fst (minify_stage E opts res))) = (isProd E opts \<and> minify res)"
    by (simp add: minify_stage_def)
  have b: "isProd E opts =
       (minify_opt opts \<or> (\<exists>v. node_env E = Some v \<and> js_includes ''production'' v))"
    by (simp add: isProd_def split: option.splits)
  have c: "minify (snd (processSource E (Single s) t r)) =
       (\<not> isInvalidPath E s \<and> nth_from_end 2 (js_split CHR ''.'' s) \<noteq> Some ''min'')"
    by (simp add: processSource_def Let_def split: prod.splits)
  have d: "minify (snd (processSource E (Group fs) t r)) =
       (nth_from_end 2 (js_split CHR ''.'' t) \<noteq> Some ''min'')"
    by (simp add: processSource_def Let_def split: prod.splits)
  from a b c d minify_stage_off [of E opts res] minify_stage_on [of E opts res]
  show ?thesis by blast
qed

theorem minify_decision_witness:
  "minify_stage demo_env default_options \<lparr>code = ''a {}'', minify = True, ext = Some ''css''\<rparr>
     = ([], ''a {}'')
   \<and> minify_stage demo_env demo_minify \<lparr>code = ''a {}'', minify = True, ext = Some ''css''\<rparr>
     = ([Minify (Some ''css'')], ''a {}'')
   \<and> \<not> minify (snd (processSource demo_env (Single ''lib/jquery.min.js'') ''out.js'' None))
   \<and> \<not> minify (snd (processSource demo_env (Single ''hello world!'') ''out.js'' None))
   \<and> minify (snd (processSource demo_env (Group [''lib/jquery.min.js'']) ''out.js'' None))"
proof -
  have off: "\<not> (isProd demo_env default_options \<and> True)" by code_simp
  have on: "isProd demo_env demo_minify \<and> True" by code_simp
  have m: "attemptMinify demo_env (Some ''css'') ''a {}'' demo_minify = ''a {}''"
    by code_simp
  have s1: "\<not> (\<not> isInvalidPath demo_env ''lib/jquery.min.js''
      \<and> nth_from_end 2 (js_split CHR ''.'' ''lib/jquery.min.js'') \<noteq> Some ''min'')"
    by code_simp
  have s2: "\<not> (\<not> isInvalidPath demo_env ''hello world!''
      \<and> nth_from_end 2 (js_split CHR ''.'' ''hello world!'') \<noteq> Some ''min'')"
    by code_simp
  have g: "nth_from_end 2 (js_split CHR ''.'' ''out.js'') \<noteq> Some ''min''"
    by code_simp
  note d1 = minify_decision [of "\<lparr>code = ''a {}'', minify = True, ext = Some ''css''\<rparr>"
      demo_env default_options "''lib/jquery.min.js''" "''out.js''" None "[''lib/jquery.min.js'']"]
  note d2 = minify_decision [of "\<lparr>code = ''a {}'', minify = True, ext = Some ''css''\<rparr>"
      demo_env demo_minify "''hello world!''" "''out.js''" None "[]"]
  from d1 off have 1: "minify_stage demo_env default_options
      \<lparr>code = ''a {}'', minify = True, ext = Some ''css''\<rparr> = ([], ''a {}'')"
    by simp
  from d2 on m have 2: "minify_stage demo_env demo_minify
      \<lparr>code = ''a {}'', minify = True, ext = Some ''css''\<rparr> = ([Minify (Some ''css'')], ''a {}'')"
    by simp
  from d1 s1 have 3:
    "\<not> minify (snd (processSource demo_env (Single ''lib/jquery.min.js'') ''out.js'' None))"
    by blast
  from d2 s2 have 4:
    "\<not> minify (snd (processSource demo_env (Single ''hello world!'') ''out.js'' None))"
    by blast
  from d1 g have 5:
    "minify (snd (processSource demo_env (Group [''lib/jquery.min.js'']) ''out.js'' None))"
    by blast
  from 1 2 3 4 5 show ?thesis by blast
qed


text \<open>
  C8. The claim strips a trailing source-map comment and trims the final code
  after the minification step. In the code \<open>cleanseResults\<close> runs once, on the
  resolved content, before inlining and minification, and removes the first
  match only: what the minifier returns is written as it is, and a second
  source-map comment stays.
\<close>

theorem cleanse_after_minify_counterexample:
  "written (loopFiles demo_env [Group [''lib/a.js'', ''lib/b.js'']] ''out.js''
      default_options None)
     = [''a;\<newline>b;\<newline>//# sourceMappingURL=b.js.map\<newline>'']
   \<and> written (loopFiles demo_sourcemap_env [Single ''lib/a.js''] ''out.js'' demo_minify None)
     = [''a;\<newline>//# sourceMappingURL=out.js.map\<newline>'']"
  by code_simp

text \<open>
  C8, amended: for every entry the source-map comment is stripped and the
  whitespace trimmed once, on the resolved content and before inlining and
  minification: the first \<open>//# sourceMappingURL=....map\<close> match (with the
  whitespace after it) is removed and the result has no whitespace at either
  end. The code written is the result of the minification step as it is
  returned (the cleansed and inlined code itself when minification does not
  run), followed by a newline.
\<close>

theorem cleanse_before_minify:
  "trimmed (code (cleanseResults res))
   \<and> code (cleanseResults res) = js_trim (rx_remove_first sourcemap_re (code res))
   \<and> code (snd (resolve_stage E src t r)) =
       (if ext (snd (processSource E src t r)) = Some ''js''
        then code (cleanseResults (snd (processSource E src t r)))
        else snd (encodeExternalResources E
               (code (cleanseResults (snd (processSource E src t r)))) src))
   \<and> entry_out E opts t r src =
       (if isProd E opts \<and> minify (snd (resolve_stage E src t r))
        then attemptMinify E (ext (snd (resolve_stage E src t r)))
               (code (snd (resolve_stage E src t r))) opts
        else code (snd (resolve_stage E src t r)))
   \<and> written (loop_entry E opts t r src) = [entry_out E opts t r src @ ''\<newline>'']
   \<and> (obfuscate E c (js_opt opts) = Inr out \<longrightarrow>
        attemptMinify E (Some ''js'') c opts = out)"
proof -
  have a: "trimmed (code (cleanseResults res))"
    by (simp add: cleanseResults_code trimmed_js_trim)
  have b: "obfuscate E c (js_opt opts) = Inr out \<longrightarrow>
        attemptMinify E (Some ''js'') c opts = out"
    by (simp add: attemptMinify_def minifyJs_def)
  note c = cleanseResults_code [of res]
  note d = resolve_stage_parts(2) [of E src t r]
  note e = entry_out_cases [of E opts t r src]
  note f = loop_entry_written [of E opts t r src]
  from a b c d e f show ?thesis
    by blast
qed

theorem cleanse_before_minify_witness:
  "obfuscate demo_sourcemap_env ''a;'' (js_opt demo_minify)
     = Inr ''a;\<newline>//# sourceMappingURL=out.js.map''
   \<and> attemptMinify demo_sourcemap_env (Some ''js'') ''a;'' demo_minify
     = ''a;\<newline>//# sourceMappingURL=out.js.map''
   \<and> trimmed (code (cleanseResults \<lparr>code = '' a; '', minify = True, ext = Some ''js''\<rparr>))"
proof -
  have o: "obfuscate demo_sourcemap_env ''a;'' (js_opt demo_minify)
     = Inr ''a;\<newline>//# sourceMappingURL=out.js.map''"
    by code_simp
  from cleanse_before_minify [of "\<lparr>code = '' a; '', minify = True, ext = Some ''js''\<rparr>"
      demo_sourcemap_env "Single ''lib/a.js''" "''out.js''" None demo_minify "''a;''"
      "''a;\<newline>//# sourceMappingURL=out.js.map''"] o
  show ?thesis by blast
qed

text \<open>
  C2. The claim returns the content of an entry unmodified whenever an error is
  thrown during inlining. In the code \<open>replace\<close> assigns the variable \<open>code\<close>
  that the \<open>catch\<close> resolves with, so the references rewritten before the error
  stay rewritten.
\<close>

theorem partial_inlining_counterexample:
  "js_match_all url_re 0 ''a{b:url(a.png)} c{d:url(gone.png)}''
     = [''url(a.png)'', ''url(gone.png)'']
   \<and> each_match demo_env (Single ''css/site.css'')
        (''a{b:url('' @ [CHR 0x27] @ ''data:image/png;charset=utf-8;base64,iVBORw0KGgo=''
           @ [CHR 0x27] @ '')} c{d:url(gone.png)}'')
        ''url(gone.png)''
     = ([Read ''css/gone.png''], Inl IOError)
   \<and> snd (encodeExternalResources demo_env ''a{b:url(a.png)} c{d:url(gone.png)}''
          (Single ''css/site.css''))
     = ''a{b:url('' @ [CHR 0x27] @ ''data:image/png;charset=utf-8;base64,iVBORw0KGgo=''
         @ [CHR 0x27] @ '')} c{d:url(gone.png)}''
   \<and> snd (encodeExternalResources demo_env ''a{b:url(a.png)} c{d:url(gone.png)}''
          (Single ''css/site.css''))
     \<noteq> ''a{b:url(a.png)} c{d:url(gone.png)}''"
  by code_simp

text \<open>
  C2, amended: an error thrown while a reference is inlined ends the inlining of
  the entry without failing the pass; the content returned is the content as the
  references processed before the error left it (their rewrites stay), and the
  failing reference and the references after it are not rewritten. When every
  reference before the failing one is a data URI already (so also when the
  failing reference is the first), the content is returned unmodified.
\<close>

theorem inlining_error_keeps_earlier_rewrites:
  assumes "js_match_all url_re 0 c = pre @ m # post"
    and "all_inlined E src pre c = Some c'"
    and "snd (each_match E src c' m) = Inl err"
  shows "snd (encodeExternalResources E c src) = c'
         \<and> (list_all is_data_ref pre \<longrightarrow> c' = c)"
proof -
  from assms(1) obtain x xs where ms: "js_match_all url_re 0 c = x # xs"
    by (cases pre) auto
  then have "snd (encodeExternalResources E c src) =
      snd (each_matches E src (pre @ m # post) ([], c))"
    using assms(1) by (simp add: encodeExternalResources_def)
  then have "snd (encodeExternalResources E c src) = c'"
    by (simp add: each_matches_stops [OF assms(2,3)])
  moreover have "list_all is_data_ref pre \<longrightarrow> c' = c"
    using assms(2) all_inlined_data [of pre E src c] by auto
  ultimately show ?thesis by blast
qed

theorem inlining_error_keeps_earlier_rewrites_witness:
  "js_match_all url_re 0 ''a{b:url(a.png)} c{d:url(gone.png)}''
     = [''url(a.png)''] @ ''url(gone.png)'' # []
   \<and> snd (encodeExternalResources demo_env ''a{b:url(a.png)} c{d:url(gone.png)}''
          (Single ''css/site.css''))
     = ''a{b:url('' @ [CHR 0x27] @ ''data:image/png;charset=utf-8;base64,iVBORw0KGgo=''
         @ [CHR 0x27] @ '')} c{d:url(gone.png)}''
   \<and> js_match_all url_re 0 ''a{b:url(data:x)} c{d:url(gone.png)}''
     = [''url(data:x)''] @ ''url(gone.png)'' # []
   \<and> list_all is_data_ref [''url(data:x)'']
   \<and> snd (encodeExternalResources demo_env ''a{b:url(data:x)} c{d:url(gone.png)}''
          (Single ''css/inline.css''))
     = ''a{b:url(data:x)} c{d:url(gone.png)}''"
proof -
  have a: "js_match_all url_re 0 ''a{b:url(a.png)} c{d:url(gone.png)}''
     = [''url(a.png)''] @ ''url(gone.png)'' # []"
    by code_simp
  have b: "all_inlined demo_env (Single ''css/site.css'') [''url(a.png)'']
      ''a{b:url(a.png)} c{d:url(gone.png)}''
     = Some (''a{b:url('' @ [CHR 0x27] @ ''data:image/png;charset=utf-8;base64,iVBORw0KGgo=''
         @ [CHR 0x27] @ '')} c{d:url(gone.png)}'')"
    by code_simp
  have c: "snd (each_match demo_env (Single ''css/site.css'')
        (''a{b:url('' @ [CHR 0x27] @ ''data:image/png;charset=utf-8;base64,iVBORw0KGgo=''
           @ [CHR 0x27] @ '')} c{d:url(gone.png)}'')
        ''url(gone.png)'') = Inl IOError"
    by code_simp
  have a': "js_match_all url_re 0 ''a{b:url(data:x)} c{d:url(gone.png)}''
     = [''url(data:x)''] @ ''url(gone.png)'' # []"
    by code_simp
  have b': "all_inlined demo_env (Single ''css/inline.css'') [''url(data:x)'']
      ''a{b:url(data:x)} c{d:url(gone.png)}''
     = Some ''a{b:url(data:x)} c{d:url(gone.png)}''"
    by code_simp
  have c': "snd (each_match demo_env (Single ''css/inline.css'')
        ''a{b:url(data:x)} c{d:url(gone.png)}'' ''url(gone.png)'') = Inl IOError"
    by code_simp
  have d': "list_all is_data_ref [''url(data:x)'']"
    by code_simp
  from inlining_error_keeps_earlier_rewrites [OF a b c]
    inlining_error_keeps_earlier_rewrites [OF a' b' c'] a a' d'
  show ?thesis
    by blast
qed

text \<open>
  C6. Every \<open>url(...)\<close> reference that is not a data URI is rewritten in place to
  \<open>url('data:<mime>;charset=utf-8;base64,<data>')\<close>, and data URIs are left
  untouched. The code rewrites the first occurrence of the text of a match in
  the current content, which need not be the match: here the text of the second
  reference occurs inside the data URI before it and the referenced file holds
  the eight bytes of the PNG signature, so no error is thrown, the data URI is
  altered and the second reference is left as it was.
\<close>

theorem rewrite_hits_earlier_occurrence:
  "js_match_all url_re 0 ''url(data:url(a.png)) url(a.png)''
     = [''url(data:url(a.png))'', ''url(a.png)'']
   \<and> fs_read demo_env ''css/a.png''
     = Inr [CHR 0x89, CHR ''P'', CHR ''N'', CHR ''G'', CHR 0x0D, CHR 0x0A, CHR 0x1A, CHR 0x0A]
   \<and> encodeExternalResources demo_env ''url(data:url(a.png)) url(a.png)''
        (Single ''css/odd.css'')
     = ([Read ''css/a.png''],
        ''url(data:url('' @ [CHR 0x27] @ ''data:image/png;charset=utf-8;base64,iVBORw0KGgo=''
          @ [CHR 0x27] @ '')) url(a.png)'')"
  by code_simp

text \<open>
  C3. In watch mode at most one pass is in flight, and the changes reported
  during a pass are coalesced into exactly one further pass once it ends. The
  first half holds. The second does not: the callback given to the throttle
  never gives the slot back, so the requests queued during a pass are never
  served; after six changes and the end of the pass they started, one pass has
  run, none is in flight and five requests stay queued. Only a change reported
  after the pass has ended starts a pass, through the watcher that the pass
  itself added.
\<close>

theorem queued_changes_never_served:
  "in_flight (watch_run watch_start evs) \<le> 1
   \<and> watch_run watch_start [Change, Change, Change, Change, Change, Change, PassDone 0]
     = \<lparr>watchers = [\<lparr>throttle_of = \<lparr>busy = True, pending = 5\<rparr>, flying = False\<rparr>,
                     \<lparr>throttle_of = \<lparr>busy = False, pending = 0\<rparr>, flying = False\<rparr>],
        started = 1\<rparr>
   \<and> in_flight (watch_run watch_start
         [Change, Change, Change, Change, Change, Change, PassDone 0]) = 0
   \<and> started (watch_run watch_start [Change, PassDone 0, Change]) = 2
   \<and> in_flight (watch_run watch_start [Change, PassDone 0, Change]) = 1"
proof -
  have "watch_run watch_start [Change, Change, Change, Change, Change, Change, PassDone 0]
     = \<lparr>watchers = [\<lparr>throttle_of = \<lparr>busy = True, pending = 5\<rparr>, flying = False\<rparr>,
                     \<lparr>throttle_of = \<lparr>busy = False, pending = 0\<rparr>, flying = False\<rparr>],
        started = 1\<rparr>"
    by code_simp
  moreover have "in_flight (watch_run watch_start
         [Change, Change, Change, Change, Change, Change, PassDone 0]) = 0"
    by code_simp
  moreover have "started (watch_run watch_start [Change, PassDone 0, Change]) = 2"
    by code_simp
  moreover have "in_flight (watch_run watch_start [Change, PassDone 0, Change]) = 1"
    by code_simp
  ultimately show ?thesis
    using in_flight_le_one [of evs] by blast
qed



end
